theory Spec2Isabelle
  imports
    Complex_Main
    "HOL-Library.Char_ord"
    "HOL-Library.List_Lexorder"
    "HOL-Library.Product_Lexorder"
begin

section \<open>Data model of \<^verbatim>\<open>Lib/diffenator/font.py\<close>\<close>

text \<open>
  Glyph names and feature tags are ASCII strings. A resolved text is a Python unicode
  string; it is modelled as the list of its code points, so that \<^verbatim>\<open>unichr(cp)\<close> is
  \<open>[cp]\<close>, the space character is \<open>32\<close> and \<^verbatim>\<open>unichr(0)\<close> is \<open>[0]\<close>. Python compares
  tuples and strings lexicographically, a proper prefix sorting first; this is the order
  of \<open>List_Lexorder\<close> and \<open>Product_Lexorder\<close>.
\<close>

type_synonym glyph_name = string
type_synonym feature_tag = string
type_synonym ustring = "nat list"
type_synonym hb_input = "feature_tag list \<times> ustring"

text \<open>
  A substitution rule of the font, as the relation of the external interface:
  required input glyph sequence, produced glyph, activating feature tags.
\<close>

record gsub_rule =
  rule_inputs :: "glyph_name list"
  rule_output :: glyph_name
  rule_features :: "feature_tag list"

text \<open>
  The font resource (fontTools' \<^verbatim>\<open>TTFont\<close>), reduced to what \<^verbatim>\<open>font.py\<close> and the
  input generator read from it. \<open>'v\<close> is the type of axis values, which the code only
  copies. \<open>table_tags\<close> is \<^verbatim>\<open>keys()\<close>, \<open>glyph_order\<close> is \<^verbatim>\<open>getGlyphOrder()\<close>,
  \<open>advance_width n\<close> is \<^verbatim>\<open>getGlyphSet()[n].width\<close>, \<open>fvar_axes\<close> lists
  \<^verbatim>\<open>(a.axisTag, a.defaultValue)\<close> for \<^verbatim>\<open>a\<close> in \<^verbatim>\<open>['fvar'].axes\<close>, and
  \<open>us_weight_class\<close> is \<^verbatim>\<open>['OS/2'].usWeightClass\<close>. The last four fields are the
  font-table capabilities the input generator's constructor consumes.
\<close>

record 'v ttfont =
  table_tags :: "string list"
  glyph_order :: "glyph_name list"
  advance_width :: "glyph_name \<Rightarrow> int"
  fvar_axes :: "(string \<times> 'v) list"
  us_weight_class :: 'v
  cmap_reverse :: "glyph_name \<rightharpoonup> nat"
  gsub_rules :: "gsub_rule list"
  visual_width :: "glyph_name \<Rightarrow> int"
  space_advance :: int

text \<open>
  The attributes of an \<^verbatim>\<open>InputGenerator\<close> object that its methods only read. The one
  attribute they assign, \<^verbatim>\<open>self.memo\<close>, is threaded through the functions below as an
  explicit argument and result.
\<close>

record 'v input_generator =
  font :: "'v ttfont"
  reverse_cmap :: "glyph_name \<rightharpoonup> nat"
  widths :: "glyph_name \<Rightarrow> int"
  space_width :: int

type_synonym memo = "glyph_name \<rightharpoonup> hb_input"

text \<open>
  The outcome of one call of \<^verbatim>\<open>input_from_name\<close>: the returned value (\<open>None\<close> is
  Python's \<^verbatim>\<open>None\<close>), the memo afterwards, and the \<^verbatim>\<open>seen\<close> set afterwards (the set
  is a shared mutable object, so the caller observes what the callee added).
\<close>

type_synonym outcome = "hb_input option \<times> memo \<times> glyph_name set"

text \<open>class \<^verbatim>\<open>Glyph\<close> (lines 225-238).\<close>

record 'v glyph =
  glyph_name :: glyph_name
  features :: "feature_tag list"
  characters :: ustring
  combining :: bool
  key :: ustring
  glyph_font :: "'v ttfont"

text \<open>
  \<^verbatim>\<open>Glyph.__init__\<close>; \<open>uni\<close> is the external lookup \<^verbatim>\<open>unicodedata.combining\<close>.
\<close>

definition Glyph ::
  "(nat \<Rightarrow> nat) \<Rightarrow> glyph_name \<Rightarrow> feature_tag list \<Rightarrow> ustring \<Rightarrow> 'v ttfont \<Rightarrow> 'v glyph" where
  "Glyph uni n fs cs fnt =
     \<lparr>glyph_name = n, features = fs, characters = cs,
      combining = (case cs of [] \<Rightarrow> False | c # _ \<Rightarrow> uni c \<noteq> 0),
      key = cs @ map of_char (concat fs),
      glyph_font = fnt\<rparr>"

section \<open>The input generator\<close>

subsection \<open>The part of \<^verbatim>\<open>HbInputGenerator\<close> that is not in \<^verbatim>\<open>font.py\<close>\<close>

text \<open>
  Modelled from the spec: the constructor of \<^verbatim>\<open>HbInputGenerator\<close>
  (\<^verbatim>\<open>diffenator/hbinput.py\<close>), which builds the reverse character map, the per-glyph
  visual widths and the space-glyph advance width from the font, and starts with an empty
  memo (the memo is the second component).
\<close>

definition InputGenerator :: "'v ttfont \<Rightarrow> 'v input_generator \<times> memo" where
  "InputGenerator fnt =
     (\<lparr>font = fnt, reverse_cmap = cmap_reverse fnt, widths = visual_width fnt,
       space_width = space_advance fnt\<rparr>, Map.empty)"

text \<open>
  Modelled from the spec: the candidate a substitution rule contributes once its
  required input glyphs have been resolved (section 4.2, step 4): if every required
  glyph resolved, their texts concatenated in order, under the union of the rule's
  feature tags and the tags of the resolved inputs (a tuple without repetition, in
  ascending order); otherwise no candidate.
\<close>

definition rule_candidate :: "gsub_rule \<Rightarrow> hb_input option list \<Rightarrow> hb_input option" where
  "rule_candidate r rs =
     (case those rs of
        None \<Rightarrow> None
      | Some ps \<Rightarrow>
          Some (sort (remdups (rule_features r @ concat (map fst ps))), concat (map snd ps)))"

text \<open>
  Modelled from the spec: the recursive resolution of a rule's required input glyphs, in
  order, each by a call \<^verbatim>\<open>self.input_from_name(glyph, seen)\<close> on the shared memo and
  \<^verbatim>\<open>seen\<close> set. The method called back is the argument \<open>resolve\<close>; it returns \<open>None\<close>
  when it does not return.
\<close>

fun resolve_glyphs ::
  "(memo \<Rightarrow> glyph_name set \<Rightarrow> glyph_name \<Rightarrow> outcome option) \<Rightarrow> glyph_name list \<Rightarrow>
   memo \<Rightarrow> glyph_name set \<Rightarrow> (hb_input option list \<times> memo \<times> glyph_name set) option" where
  "resolve_glyphs resolve [] m seen = Some ([], m, seen)"
| "resolve_glyphs resolve (gl # gls) m seen =
     (case resolve m seen gl of
        None \<Rightarrow> None
      | Some (r, m1, seen1) \<Rightarrow>
          (case resolve_glyphs resolve gls m1 seen1 of
             None \<Rightarrow> None
           | Some (rs, m2, seen2) \<Rightarrow> Some (r # rs, m2, seen2)))"

text \<open>
  Modelled from the spec: the loop over the substitution rules (section 4.2, step 4);
  one entry per rule, \<open>None\<close> for a rule that contributes no candidate.
\<close>

fun rule_candidates ::
  "(memo \<Rightarrow> glyph_name set \<Rightarrow> glyph_name \<Rightarrow> outcome option) \<Rightarrow> gsub_rule list \<Rightarrow>
   memo \<Rightarrow> glyph_name set \<Rightarrow> (hb_input option list \<times> memo \<times> glyph_name set) option" where
  "rule_candidates resolve [] m seen = Some ([], m, seen)"
| "rule_candidates resolve (r # rs) m seen =
     (case resolve_glyphs resolve (rule_inputs r) m seen of
        None \<Rightarrow> None
      | Some (xs, m1, seen1) \<Rightarrow>
          (case rule_candidates resolve rs m1 seen1 of
             None \<Rightarrow> None
           | Some (cs, m2, seen2) \<Rightarrow> Some (rule_candidate r xs # cs, m2, seen2)))"

text \<open>
  Modelled from the spec: \<^verbatim>\<open>HbInputGenerator._inputs_from_gsub(name, seen)\<close>, the
  candidates from every substitution rule whose output is \<open>name\<close>, in the order of
  the font's rules.
\<close>

definition inputs_from_gsub ::
  "(memo \<Rightarrow> glyph_name set \<Rightarrow> glyph_name \<Rightarrow> outcome option) \<Rightarrow> 'v input_generator \<Rightarrow>
   glyph_name \<Rightarrow> memo \<Rightarrow> glyph_name set \<Rightarrow>
   (hb_input option list \<times> memo \<times> glyph_name set) option" where
  "inputs_from_gsub resolve self name m seen =
     rule_candidates resolve
       (filter (\<lambda>r. rule_output r = name) (gsub_rules (font self))) m seen"

subsection \<open>\<^verbatim>\<open>InputGenerator.input_from_name\<close> (lines 170-222)\<close>

text \<open>
  Line 211, \<^verbatim>\<open>[i for i in inputs if i is not None]\<close>.
\<close>

fun not_none :: "'a option list \<Rightarrow> 'a list" where
  "not_none [] = []"
| "not_none (None # xs) = not_none xs"
| "not_none (Some x # xs) = x # not_none xs"

text \<open>
  The padding of lines 218-219: \<^verbatim>\<open>' ' * (width // space + (1 if width % space else 0))\<close>.
  Python's \<^verbatim>\<open>//\<close> and \<^verbatim>\<open>%\<close> on integers are \<open>div\<close> and \<open>mod\<close> on \<open>int\<close>, and a
  string times a negative number is empty.
\<close>

definition padding :: "int \<Rightarrow> int \<Rightarrow> ustring" where
  "padding width space =
     replicate (nat (width div space + (if width mod space \<noteq> 0 then 1 else 0))) 32"

text \<open>
  Lines 192-193, \<^verbatim>\<open>if seen is None: seen = set()\<close>.
\<close>

definition seen_set :: "glyph_name set option \<Rightarrow> glyph_name set" where
  "seen_set seen = (case seen of None \<Rightarrow> {} | Some s \<Rightarrow> s)"

text \<open>
  Lines 198-202, the candidate from a simple unicode mapping: the list \<^verbatim>\<open>inputs\<close>
  after line 202.
\<close>

definition unicode_input :: "'v input_generator \<Rightarrow> glyph_name \<Rightarrow> hb_input option list" where
  "unicode_input self name =
     (case reverse_cmap self name of
        None \<Rightarrow> []
      | Some cp \<Rightarrow> if [cp] \<noteq> [0::nat] then [Some ([], [cp])] else [])"

text \<open>
  The method recurses through \<^verbatim>\<open>_inputs_from_gsub\<close>. The first argument bounds the
  depth of the recursion: with \<open>0\<close> the model does not return (\<open>None\<close>), and a call
  with \<open>Suc n\<close> hands the method with \<open>n\<close> to \<^verbatim>\<open>_inputs_from_gsub\<close>. The argument
  \<open>seen\<close> is \<open>None\<close> for Python's default \<^verbatim>\<open>seen=None\<close>. Line 206,
  \<^verbatim>\<open># seen.remove(name)\<close>, is a comment in the source and has no counterpart here.
\<close>

fun input_from_name ::
  "nat \<Rightarrow> 'v input_generator \<Rightarrow> memo \<Rightarrow> glyph_name \<Rightarrow> glyph_name set option \<Rightarrow> bool \<Rightarrow>
   outcome option" where
  "input_from_name 0 self m name seen pad = None"
| "input_from_name (Suc n) self m name seen pad =
     (let seen0 = seen_set seen in
      case m name of
        Some r \<Rightarrow> Some (Some r, m, seen0)
      | None \<Rightarrow>
          if name \<in> seen0 then Some (None, m, seen0)
          else
            let seen1 = insert name seen0;
                direct = unicode_input self name
            in
            (case inputs_from_gsub
                    (\<lambda>m' seen' name'. input_from_name n self m' name' (Some seen') False)
                    self name m seen1 of
               None \<Rightarrow> None
             | Some (cs, m2, seen2) \<Rightarrow>
                 let inputs = not_none (direct @ cs)
                 in
                 if inputs = [] then Some (None, m2, seen2)
                 else
                   let (feats, txt0) = min_list inputs;
                       txt1 =
                         (if pad \<and> space_width self > 0
                          then padding (widths self name) (space_width self) @ txt0
                          else txt0)
                   in Some (Some (feats, txt1), m2(name \<mapsto> (feats, txt1)), seen2)))"

subsection \<open>\<^verbatim>\<open>InputGenerator.all_inputs\<close> (lines 151-168)\<close>

text \<open>
  The loop over \<^verbatim>\<open>getGlyphOrder()\<close>. Every iteration is a top-level call of
  \<^verbatim>\<open>input_from_name\<close> (no \<^verbatim>\<open>seen\<close> argument) on the memo the previous iterations
  left; \<^verbatim>\<open>characters.replace(' ', '')\<close> is the filter on code point 32.
\<close>

fun all_inputs_loop ::
  "nat \<Rightarrow> (nat \<Rightarrow> nat) \<Rightarrow> 'v input_generator \<Rightarrow> memo \<Rightarrow> glyph_name list \<Rightarrow>
   ('v glyph list \<times> memo) option" where
  "all_inputs_loop fuel uni self m [] = Some ([], m)"
| "all_inputs_loop fuel uni self m (name # names) =
     (let is_zero_width = (advance_width (font self) name = 0) in
      case input_from_name fuel self m name None is_zero_width of
        None \<Rightarrow> None
      | Some (cur_input, m1, seen1) \<Rightarrow>
          let gl =
            (case cur_input of
               Some (feats, chars) \<Rightarrow>
                 Glyph uni name feats (filter (\<lambda>c. c \<noteq> 32) chars) (font self)
             | None \<Rightarrow> Glyph uni name [''''] [] (font self))
          in
          (case all_inputs_loop fuel uni self m1 names of
             None \<Rightarrow> None
           | Some (gls, m2) \<Rightarrow> Some (gl # gls, m2)))"

definition all_inputs ::
  "nat \<Rightarrow> (nat \<Rightarrow> nat) \<Rightarrow> 'v input_generator \<Rightarrow> memo \<Rightarrow> ('v glyph list \<times> memo) option" where
  "all_inputs fuel uni self m = all_inputs_loop fuel uni self m (glyph_order (font self))"

text \<open>
  The glyphs of a font: the different names in its glyph order and among the required
  inputs of its substitution rules (in a well-formed font the rules name glyphs of the
  glyph order only, and \<open>glyph_count\<close> is the length of the glyph order).
\<close>

definition glyph_names :: "'v ttfont \<Rightarrow> glyph_name list" where
  "glyph_names fnt = remdups (glyph_order fnt @ concat (map rule_inputs (gsub_rules fnt)))"

definition glyph_count :: "'v ttfont \<Rightarrow> nat" where
  "glyph_count fnt = length (glyph_names fnt)"

section \<open>class \<^verbatim>\<open>DFont\<close> (lines 28-145)\<close>

text \<open>
  The attributes of a \<^verbatim>\<open>DFont\<close>. \<open>'t\<close> is the type of a dumped table. An attribute
  that holds \<^verbatim>\<open>None\<close>, or that has not been assigned yet (\<^verbatim>\<open>_metrics\<close>,
  \<^verbatim>\<open>_input_map\<close>), is \<open>None\<close>. The glyph set is a dictionary from glyph name to
  \<^verbatim>\<open>Glyph\<close>; the empty list that \<^verbatim>\<open>_gen_inputs\<close> returns for a font without
  \<^verbatim>\<open>cmap\<close> is the empty map.
\<close>

record ('v, 't) dfont =
  d_ttfont :: "'v ttfont"
  d_glyphset :: "glyph_name \<rightharpoonup> 'v glyph"
  d_axis_locations :: "(string \<rightharpoonup> 'v) option"
  d_axis_order :: "string list option"
  d_path :: "string option"
  d_src :: "'v ttfont"
  d_glyphs :: "'t option"
  d_marks :: "'t option"
  d_mkmks :: "'t option"
  d_kerns :: "'t option"
  d_glyph_metrics :: "'t option"
  d_names :: "'t option"
  d_attribs :: "'t option"
  d_metrics :: "'t option"
  d_input_map :: "(glyph_name \<rightharpoonup> 'v glyph) option"

text \<open>
  The functions of \<^verbatim>\<open>diffenator.dump\<close>, which are outside \<^verbatim>\<open>font.py\<close>, as
  parameters: each reads the \<^verbatim>\<open>DFont\<close> it is given. \<open>dump_anchors\<close> returns the
  \<^verbatim>\<open>marks_table\<close> and the \<^verbatim>\<open>mkmks_table\<close> of \<^verbatim>\<open>DumpAnchors(self)\<close>.
\<close>

record ('v, 't) dump =
  dump_anchors :: "('v, 't) dfont \<Rightarrow> 't \<times> 't"
  dump_kerning :: "('v, 't) dfont \<Rightarrow> 't"
  dump_glyphs :: "('v, 't) dfont \<Rightarrow> 't"
  dump_glyph_metrics :: "('v, 't) dfont \<Rightarrow> 't"
  dump_attribs :: "('v, 't) dfont \<Rightarrow> 't"
  dump_nametable :: "('v, 't) dfont \<Rightarrow> 't"

text \<open>
  The dictionary comprehension of line 67, \<^verbatim>\<open>{g.name: g for g in inputs}\<close>, as the
  loop it is: a later glyph of the same name replaces an earlier one.
\<close>

fun glyph_dict ::
  "'v glyph list \<Rightarrow> (glyph_name \<rightharpoonup> 'v glyph) \<Rightarrow> (glyph_name \<rightharpoonup> 'v glyph)" where
  "glyph_dict [] gs = gs"
| "glyph_dict (g # inputs) gs = glyph_dict inputs (gs(glyph_name g \<mapsto> g))"

text \<open>
  \<^verbatim>\<open>DFont._gen_inputs\<close> (lines 63-67); it reads \<^verbatim>\<open>self._ttfont\<close> only, which is
  its argument here.
\<close>

definition gen_inputs ::
  "nat \<Rightarrow> (nat \<Rightarrow> nat) \<Rightarrow> 'v ttfont \<Rightarrow> (glyph_name \<rightharpoonup> 'v glyph) option" where
  "gen_inputs fuel uni ttf =
     (if ''cmap'' \<notin> set (table_tags ttf) then Some Map.empty
      else
        (case all_inputs fuel uni (fst (InputGenerator ttf)) (snd (InputGenerator ttf)) of
           None \<Rightarrow> None
         | Some (inputs, m) \<Rightarrow>
             Some (glyph_dict inputs Map.empty)))"

text \<open>\<^verbatim>\<open>DFont.recalc_tables\<close> (lines 103-113), one assignment after the other.\<close>

definition recalc_tables :: "('v, 't) dump \<Rightarrow> ('v, 't) dfont \<Rightarrow> ('v, 't) dfont" where
  "recalc_tables D self =
     (let anchors = dump_anchors D self;
          self1 = self\<lparr>d_glyphs := Some (dump_glyphs D self)\<rparr>;
          self2 = self1\<lparr>d_marks := Some (fst anchors)\<rparr>;
          self3 = self2\<lparr>d_mkmks := Some (snd anchors)\<rparr>;
          self4 = self3\<lparr>d_glyph_metrics := Some (dump_glyph_metrics D self3)\<rparr>;
          self5 = self4\<lparr>d_attribs := Some (dump_attribs D self4)\<rparr>;
          self6 = self5\<lparr>d_names := Some (dump_nametable D self5)\<rparr>;
          self7 = self6\<lparr>d_kerns := Some (dump_kerning D self6)\<rparr>
      in self7\<lparr>d_metrics := Some (dump_glyph_metrics D self7)\<rparr>)"

text \<open>
  \<^verbatim>\<open>DFont.__init__\<close> (lines 31-42). \<open>ttf\<close> is the font that the external
  \<^verbatim>\<open>TTFont(file)\<close> opens; the test \<^verbatim>\<open>if file\<close> fails for \<^verbatim>\<open>None\<close> and for the
  empty string. The result is \<open>None\<close> when the generation of the inputs does not
  return.
\<close>

definition DFont ::
  "nat \<Rightarrow> (nat \<Rightarrow> nat) \<Rightarrow> ('v, 't) dump \<Rightarrow> 'v ttfont \<Rightarrow> string option \<Rightarrow> bool \<Rightarrow>
   ('v, 't) dfont option" where
  "DFont fuel uni D ttf file lazy =
     (case (if file \<noteq> None \<and> file \<noteq> Some [] then gen_inputs fuel uni ttf
            else Some Map.empty) of
        None \<Rightarrow> None
      | Some gs \<Rightarrow>
          (let self =
             \<lparr>d_ttfont = ttf, d_glyphset = gs, d_axis_locations = None, d_axis_order = None,
              d_path = file, d_src = ttf, d_glyphs = None, d_marks = None, d_mkmks = None,
              d_kerns = None, d_glyph_metrics = None, d_names = None, d_attribs = None,
              d_metrics = None, d_input_map = None\<rparr>
           in Some (if \<not> lazy then recalc_tables D self else self)))"

text \<open>The property \<^verbatim>\<open>glyphset\<close> (lines 48-50) reads \<^verbatim>\<open>self._glyphset\<close>.\<close>

definition glyphset :: "('v, 't) dfont \<Rightarrow> (glyph_name \<rightharpoonup> 'v glyph)" where
  "glyphset self = d_glyphset self"

text \<open>\<^verbatim>\<open>DFont.recalc_input_map\<close> (lines 69-70) assigns \<^verbatim>\<open>self._input_map\<close>.\<close>

definition recalc_input_map ::
  "nat \<Rightarrow> (nat \<Rightarrow> nat) \<Rightarrow> ('v, 't) dfont \<Rightarrow> ('v, 't) dfont option" where
  "recalc_input_map fuel uni self =
     (case gen_inputs fuel uni (d_ttfont self) of
        None \<Rightarrow> None
      | Some gs \<Rightarrow> Some (self\<lparr>d_input_map := Some gs\<rparr>))"

text \<open>The property \<^verbatim>\<open>is_variable\<close> (lines 72-76): \<^verbatim>\<open>'fvar' in self._src\<close>.\<close>

definition is_variable :: "('v, 't) dfont \<Rightarrow> bool" where
  "is_variable self = (''fvar'' \<in> set (table_tags (d_src self)))"

text \<open>
  Lines 85-89 of \<^verbatim>\<open>set_variations\<close>: the loop over the requested axes. The
  dictionary \<^verbatim>\<open>axes\<close> is the list of its items, in the order of iteration (its keys
  are pairwise different); the state of the loop is the dictionary
  \<^verbatim>\<open>self._axis_locations\<close> and the lines printed so far.
\<close>

fun apply_axes ::
  "(string \<times> 'v) list \<Rightarrow> (string \<rightharpoonup> 'v) \<Rightarrow> string list \<Rightarrow> (string \<rightharpoonup> 'v) \<times> string list" where
  "apply_axes [] locs out = (locs, out)"
| "apply_axes ((axis, v) # axes) locs out =
     (if locs axis \<noteq> None then apply_axes axes (locs(axis \<mapsto> v)) out
      else apply_axes axes locs (out @ [''font has no axis called '' @ axis]))"

text \<open>
  The dictionary comprehension of lines 83-84,
  \<^verbatim>\<open>{a.axisTag: a.defaultValue for a in self._src['fvar'].axes}\<close>, as the loop it
  is: a later axis of the same tag replaces an earlier one.
\<close>

fun axis_defaults :: "(string \<times> 'v) list \<Rightarrow> (string \<rightharpoonup> 'v) \<Rightarrow> (string \<rightharpoonup> 'v)" where
  "axis_defaults [] locs = locs"
| "axis_defaults ((tag, dv) # axes) locs = axis_defaults axes (locs(tag \<mapsto> dv))"

text \<open>
  \<^verbatim>\<open>DFont.set_variations\<close> (lines 78-92). \<open>instantiate\<close> is the external
  \<^verbatim>\<open>instantiateVariableFont(src, axes, inplace=False)\<close>. The result is the new state
  of the object and the lines printed.
\<close>

definition set_variations ::
  "('v ttfont \<Rightarrow> (string \<times> 'v) list \<Rightarrow> 'v ttfont) \<Rightarrow> ('v, 't) dump \<Rightarrow> (string \<times> 'v) list \<Rightarrow>
   ('v, 't) dfont \<Rightarrow> ('v, 't) dfont \<times> string list" where
  "set_variations instantiate D axes self =
     (if is_variable self then
        (let self1 = self\<lparr>d_ttfont := instantiate (d_src self) axes\<rparr>;
             self2 = self1\<lparr>d_axis_order := Some (map fst (fvar_axes (d_src self1)))\<rparr>;
             defaults = axis_defaults (fvar_axes (d_src self2)) Map.empty;
             (locs, out) = apply_axes axes defaults [];
             self3 = self2\<lparr>d_axis_locations := Some locs\<rparr>
         in (recalc_tables D self3, out))
      else (self, [''Not vf'']))"

text \<open>\<^verbatim>\<open>DFont.set_variations_from_static\<close> (lines 94-101).\<close>

definition set_variations_from_static ::
  "('v ttfont \<Rightarrow> (string \<times> 'v) list \<Rightarrow> 'v ttfont) \<Rightarrow> ('v, 't) dump \<Rightarrow> ('v, 't) dfont \<Rightarrow>
   ('v, 't) dfont \<Rightarrow> ('v, 't) dfont \<times> string list" where
  "set_variations_from_static instantiate D other self =
     (if is_variable self
      then set_variations instantiate D [(''wght'', us_weight_class (d_ttfont other))] self
      else (self, []))"

section \<open>Example fonts\<close>

text \<open>
  A small font: \<open>A.sc\<close> is reachable only from \<open>A\<close>, through the feature
  \<open>smcp\<close> or the feature \<open>c2sc\<close>,
  \<open>acutecomb\<close> is a non-spacing mark of visual width 30, the space glyph is 20 wide,
  and \<open>.notdef\<close> has no input. It declares the axes \<open>wght\<close>, with default 400,
  and \<open>wdth\<close>, with default 100.
\<close>

definition example_font :: "int ttfont" where
  "example_font =
     \<lparr>table_tags = [''cmap'', ''GSUB'', ''fvar''],
      glyph_order = [''.notdef'', ''space'', ''A'', ''A.sc'', ''acutecomb''],
      advance_width = (\<lambda>n. if n = ''acutecomb'' then 0 else if n = ''space'' then 20 else 500),
      fvar_axes = [(''wght'', 400), (''wdth'', 100)],
      us_weight_class = 400,
      cmap_reverse = [''space'' \<mapsto> 32, ''A'' \<mapsto> 65, ''acutecomb'' \<mapsto> 769],
      gsub_rules =
        [\<lparr>rule_inputs = [''A''], rule_output = ''A.sc'', rule_features = [''smcp'']\<rparr>,
         \<lparr>rule_inputs = [''A''], rule_output = ''A.sc'', rule_features = [''c2sc'']\<rparr>],
      visual_width = (\<lambda>n. if n = ''acutecomb'' then 30 else if n = ''space'' then 20 else 500),
      space_advance = 20\<rparr>"

definition example_generator :: "int input_generator" where
  "example_generator = fst (InputGenerator example_font)"

text \<open>The combining class of U+0301 is 230; the other characters of the examples have 0.\<close>

definition example_combining :: "nat \<Rightarrow> nat" where
  "example_combining c = (if c = 769 then 230 else 0)"

text \<open>
  A font with a substitution cycle: \<open>A\<close> is produced only from \<open>B\<close> and \<open>B\<close>
  only from \<open>A\<close>.
\<close>

definition cyclic_font :: "int ttfont" where
  "cyclic_font =
     \<lparr>table_tags = [''cmap'', ''GSUB''],
      glyph_order = [''A'', ''B''],
      advance_width = (\<lambda>n. 500),
      fvar_axes = [],
      us_weight_class = 400,
      cmap_reverse = Map.empty,
      gsub_rules =
        [\<lparr>rule_inputs = [''B''], rule_output = ''A'', rule_features = [''aalt'']\<rparr>,
         \<lparr>rule_inputs = [''A''], rule_output = ''B'', rule_features = [''salt'']\<rparr>],
      visual_width = (\<lambda>n. 500),
      space_advance = 0\<rparr>"

definition cyclic_generator :: "int input_generator" where
  "cyclic_generator = fst (InputGenerator cyclic_font)"

text \<open>
  The empty memo that a new generator starts with, and the memo once \<open>A\<close> has been
  resolved.
\<close>

definition new_memo :: memo where
  "new_memo = Map.empty"

definition memo_A :: memo where
  "memo_A = new_memo(''A'' \<mapsto> ([], [65]))"

text \<open>
  An instantiation for the examples: the instance has no \<open>fvar\<close> table and its weight
  class is the requested \<open>wght\<close>. The dumped tables of the examples are the table tags
  of the font resource they are dumped from.
\<close>

definition example_instantiate :: "int ttfont \<Rightarrow> (string \<times> int) list \<Rightarrow> int ttfont" where
  "example_instantiate src axes =
     src\<lparr>table_tags := filter (\<lambda>t. t \<noteq> ''fvar'') (table_tags src),
         us_weight_class := (case map_of axes ''wght'' of None \<Rightarrow> us_weight_class src | Some w \<Rightarrow> w)\<rparr>"

definition example_dump :: "(int, string list) dump" where
  "example_dump =
     \<lparr>dump_anchors = (\<lambda>d. (table_tags (d_ttfont d), table_tags (d_ttfont d))),
      dump_kerning = (\<lambda>d. table_tags (d_ttfont d)),
      dump_glyphs = (\<lambda>d. table_tags (d_ttfont d)),
      dump_glyph_metrics = (\<lambda>d. table_tags (d_ttfont d)),
      dump_attribs = (\<lambda>d. table_tags (d_ttfont d)),
      dump_nametable = (\<lambda>d. table_tags (d_ttfont d))\<rparr>"

text \<open>
  The \<^verbatim>\<open>DFont\<close> of the example font, as \<^verbatim>\<open>DFont('font.ttf')\<close> builds it.
\<close>

definition example_dfont :: "(int, string list) dfont" where
  "example_dfont =
     the (DFont 6 example_combining example_dump example_font (Some ''font.ttf'') False)"

text \<open>
  A font whose rules for \<open>X\<close> come in one of two orders; \<open>A\<close> and \<open>B\<close> are
  produced from each other, \<open>A\<close> and \<open>C\<close> have a unicode mapping.
\<close>

definition ordered_font :: "bool \<Rightarrow> int ttfont" where
  "ordered_font swapped =
     \<lparr>table_tags = [''cmap'', ''GSUB''],
      glyph_order = [''X'', ''A'', ''B'', ''C''],
      advance_width = (\<lambda>n. 500),
      fvar_axes = [],
      us_weight_class = 400,
      cmap_reverse = [''A'' \<mapsto> 97, ''C'' \<mapsto> 99],
      gsub_rules =
        (if swapped
         then [\<lparr>rule_inputs = [''B''], rule_output = ''X'', rule_features = [''ss02'']\<rparr>,
               \<lparr>rule_inputs = [''A''], rule_output = ''X'', rule_features = [''ss01'']\<rparr>]
         else [\<lparr>rule_inputs = [''A''], rule_output = ''X'', rule_features = [''ss01'']\<rparr>,
               \<lparr>rule_inputs = [''B''], rule_output = ''X'', rule_features = [''ss02'']\<rparr>]) @
        [\<lparr>rule_inputs = [''B''], rule_output = ''A'', rule_features = [''calt'']\<rparr>,
         \<lparr>rule_inputs = [''A''], rule_output = ''B'', rule_features = [''aalt'']\<rparr>,
         \<lparr>rule_inputs = [''C''], rule_output = ''B'', rule_features = [''zero'']\<rparr>],
      visual_width = (\<lambda>n. 500),
      space_advance = 20\<rparr>"

section \<open>Auxiliary facts\<close>

subsection \<open>Unfolding \<^verbatim>\<open>input_from_name\<close>\<close>

text \<open>
  The three ways through \<^verbatim>\<open>input_from_name\<close>: the memo answers (lines 186-187), the
  cycle guard answers (lines 194-195), or the candidates are searched (lines 196-222).
  With these equations the defining equation is taken out of the simplifier, so that
  the method handed to \<^verbatim>\<open>_inputs_from_gsub\<close> is not unfolded under its binder.
\<close>

lemma input_from_name_memo:
  "m name = Some p \<Longrightarrow>
   input_from_name (Suc n) self m name seen pad = Some (Some p, m, seen_set seen)"
  by simp

lemma input_from_name_seen:
  "m name = None \<Longrightarrow> name \<in> seen_set seen \<Longrightarrow>
   input_from_name (Suc n) self m name seen pad = Some (None, m, seen_set seen)"
  by simp

lemma input_from_name_search:
  "m name = None \<Longrightarrow> name \<notin> seen_set seen \<Longrightarrow>
   input_from_name (Suc n) self m name seen pad =
     (case inputs_from_gsub
             (\<lambda>m' seen' name'. input_from_name n self m' name' (Some seen') False)
             self name m (insert name (seen_set seen)) of
        None \<Rightarrow> None
      | Some (cs, m2, seen2) \<Rightarrow>
          if not_none (unicode_input self name @ cs) = [] then Some (None, m2, seen2)
          else
            Some (Some (fst (min_list (not_none (unicode_input self name @ cs))),
                        (if pad \<and> space_width self > 0
                         then padding (widths self name) (space_width self)
                         else []) @ snd (min_list (not_none (unicode_input self name @ cs)))),
                  m2(name \<mapsto> (fst (min_list (not_none (unicode_input self name @ cs))),
                        (if pad \<and> space_width self > 0
                         then padding (widths self name) (space_width self)
                         else []) @ snd (min_list (not_none (unicode_input self name @ cs))))),
                  seen2))"
  by (simp add: Let_def split: option.splits prod.splits)

declare input_from_name.simps(2) [simp del]

subsection \<open>What a call leaves behind\<close>

text \<open>
  A call never removes a name from \<^verbatim>\<open>seen\<close>, never changes the memo entry of a name
  that is in \<^verbatim>\<open>seen\<close> when it starts, and never changes or removes an entry of the
  memo. The two loops inherit this from the method they call back.
\<close>

lemma resolve_glyphs_frame:
  assumes R: "\<forall>m s gl r m' s'. resolve m s gl = Some (r, m', s') \<longrightarrow>
                s \<subseteq> s' \<and> (\<forall>x\<in>s. m' x = m x) \<and> m \<subseteq>\<^sub>m m'"
    and "resolve_glyphs resolve gls m s = Some (rs, m', s')"
  shows "s \<subseteq> s' \<and> (\<forall>x\<in>s. m' x = m x) \<and> m \<subseteq>\<^sub>m m'"
  using assms(2)
proof (induction gls arbitrary: m s rs)
  case Nil
  then show ?case by simp
next
  case (Cons gl gls)
  from Cons.prems obtain r m1 s1 rs1 where
    a: "resolve m s gl = Some (r, m1, s1)" and
    b: "resolve_glyphs resolve gls m1 s1 = Some (rs1, m', s')"
    by (auto split: option.splits)
  from R a have f1: "s \<subseteq> s1" "\<forall>x\<in>s. m1 x = m x" "m \<subseteq>\<^sub>m m1" by auto
  from Cons.IH [OF b] have f2: "s1 \<subseteq> s'" "\<forall>x\<in>s1. m' x = m1 x" "m1 \<subseteq>\<^sub>m m'" by auto
  from f1 f2 show ?case by (auto intro: map_le_trans)
qed

lemma rule_candidates_frame:
  assumes R: "\<forall>m s gl r m' s'. resolve m s gl = Some (r, m', s') \<longrightarrow>
                s \<subseteq> s' \<and> (\<forall>x\<in>s. m' x = m x) \<and> m \<subseteq>\<^sub>m m'"
    and "rule_candidates resolve rules m s = Some (cs, m', s')"
  shows "s \<subseteq> s' \<and> (\<forall>x\<in>s. m' x = m x) \<and> m \<subseteq>\<^sub>m m'"
  using assms(2)
proof (induction rules arbitrary: m s cs)
  case Nil
  then show ?case by simp
next
  case (Cons r rules)
  from Cons.prems obtain xs m1 s1 cs1 where
    a: "resolve_glyphs resolve (rule_inputs r) m s = Some (xs, m1, s1)" and
    b: "rule_candidates resolve rules m1 s1 = Some (cs1, m', s')"
    by (auto split: option.splits)
  from resolve_glyphs_frame [where resolve = resolve, OF R a]
  have f1: "s \<subseteq> s1" "\<forall>x\<in>s. m1 x = m x" "m \<subseteq>\<^sub>m m1" by auto
  from Cons.IH [OF b] have f2: "s1 \<subseteq> s'" "\<forall>x\<in>s1. m' x = m1 x" "m1 \<subseteq>\<^sub>m m'" by auto
  from f1 f2 show ?case by (auto intro: map_le_trans)
qed

lemma input_from_name_frame:
  "input_from_name n self m name seen pad = Some (r, m', s') \<Longrightarrow>
   seen_set seen \<subseteq> s' \<and> (\<forall>x\<in>seen_set seen. m' x = m x) \<and> m \<subseteq>\<^sub>m m'"
proof (induction n arbitrary: m name seen pad r m' s')
  case 0
  then show ?case by simp
next
  case (Suc n)
  let ?res = "\<lambda>m' seen' name'. input_from_name n self m' name' (Some seen') False"
  have R: "\<forall>m s gl r m' s'. ?res m s gl = Some (r, m', s') \<longrightarrow>
                s \<subseteq> s' \<and> (\<forall>x\<in>s. m' x = m x) \<and> m \<subseteq>\<^sub>m m'"
  proof (intro allI impI)
    fix m s gl r m' s' assume "?res m s gl = Some (r, m', s')"
    from Suc.IH [OF this] show "s \<subseteq> s' \<and> (\<forall>x\<in>s. m' x = m x) \<and> m \<subseteq>\<^sub>m m'"
      by (simp add: seen_set_def)
  qed
  show ?case
  proof (cases "m name")
    case (Some p)
    with Suc.prems show ?thesis by (simp add: input_from_name_memo)
  next
    case None
    show ?thesis
    proof (cases "name \<in> seen_set seen")
      case True
      with None Suc.prems show ?thesis by (simp add: input_from_name_seen)
    next
      case False
      note unf = input_from_name_search [where m=m and name=name and seen=seen and n=n and self=self and pad=pad, OF None False]
      from Suc.prems obtain cs m2 s2 where
        g: "inputs_from_gsub ?res self name m (insert name (seen_set seen)) = Some (cs, m2, s2)"
        unfolding unf by (auto split: option.splits)
      from g have g': "rule_candidates ?res
          (filter (\<lambda>r. rule_output r = name) (gsub_rules (font self))) m
          (insert name (seen_set seen)) = Some (cs, m2, s2)"
        by (simp add: inputs_from_gsub_def)
      from rule_candidates_frame [where resolve = ?res, OF R g']
      have f: "insert name (seen_set seen) \<subseteq> s2"
        "\<forall>x\<in>insert name (seen_set seen). m2 x = m x" "m \<subseteq>\<^sub>m m2" by auto
      from f(2) None have n2: "m2 name = None" by simp
      from Suc.prems have
        out: "s' = s2" "\<forall>x. x \<noteq> name \<longrightarrow> m' x = m2 x"
        unfolding unf g by (auto split: if_splits)
      have "m2 \<subseteq>\<^sub>m m'" using out(2) n2 unfolding map_le_def
        by (metis domIff)
      with f(3) have "m \<subseteq>\<^sub>m m'" by (rule map_le_trans)
      moreover have "\<forall>x\<in>seen_set seen. m' x = m x"
        using out(2) f(2) False by auto
      ultimately show ?thesis using f(1) out(1) by auto
    qed
  qed
qed

lemma inputs_from_gsub_frame:
  assumes "inputs_from_gsub
             (\<lambda>m' seen' name'. input_from_name n self m' name' (Some seen') False)
             self name m s = Some (cs, m2, s2)"
  shows "s \<subseteq> s2 \<and> (\<forall>x\<in>s. m2 x = m x) \<and> m \<subseteq>\<^sub>m m2"
proof -
  let ?res = "\<lambda>m' seen' name'. input_from_name n self m' name' (Some seen') False"
  have R: "\<forall>m s gl r m' s'. ?res m s gl = Some (r, m', s') \<longrightarrow>
              s \<subseteq> s' \<and> (\<forall>x\<in>s. m' x = m x) \<and> m \<subseteq>\<^sub>m m'"
  proof (intro allI impI)
    fix m s gl r m' s' assume "?res m s gl = Some (r, m', s')"
    from input_from_name_frame [OF this]
    show "s \<subseteq> s' \<and> (\<forall>x\<in>s. m' x = m x) \<and> m \<subseteq>\<^sub>m m'"
      by (simp add: seen_set_def)
  qed
  from assms have "rule_candidates ?res
      (filter (\<lambda>r. rule_output r = name) (gsub_rules (font self))) m s = Some (cs, m2, s2)"
    by (simp add: inputs_from_gsub_def)
  from rule_candidates_frame [where resolve = ?res, OF R this] show ?thesis .
qed

subsection \<open>Enough fuel\<close>

text \<open>
  Every call that searches adds a name of the finite set \<open>V\<close> to \<^verbatim>\<open>seen\<close>, so a
  call with more fuel than \<open>V\<close> has names outside \<^verbatim>\<open>seen\<close> returns; and a call
  that returns with some fuel returns the same with more.
\<close>

lemma resolve_glyphs_total:
  assumes R: "\<forall>m s gl r m' s'. resolve m s gl = Some (r, m', s') \<longrightarrow>
                s \<subseteq> s' \<and> (\<forall>x\<in>s. m' x = m x) \<and> m \<subseteq>\<^sub>m m'"
    and T: "\<forall>m s gl. S \<subseteq> s \<longrightarrow> gl \<in> V \<longrightarrow> (\<exists>out. resolve m s gl = Some out)"
    and "set gls \<subseteq> V" and "S \<subseteq> s"
  shows "\<exists>out. resolve_glyphs resolve gls m s = Some out"
  using assms(3,4)
proof (induction gls arbitrary: m s)
  case Nil
  then show ?case by simp
next
  case (Cons gl gls)
  from T Cons.prems obtain r m1 s1 where
    a: "resolve m s gl = Some (r, m1, s1)" by (metis list.set_intros(1) prod_cases3 subsetD)
  from R a Cons.prems have "S \<subseteq> s1" by blast
  with Cons.IH [of s1 m1] Cons.prems obtain out where
    "resolve_glyphs resolve gls m1 s1 = Some out" by auto
  with a show ?case by (cases out) auto
qed

lemma rule_candidates_total:
  assumes R: "\<forall>m s gl r m' s'. resolve m s gl = Some (r, m', s') \<longrightarrow>
                s \<subseteq> s' \<and> (\<forall>x\<in>s. m' x = m x) \<and> m \<subseteq>\<^sub>m m'"
    and T: "\<forall>m s gl. S \<subseteq> s \<longrightarrow> gl \<in> V \<longrightarrow> (\<exists>out. resolve m s gl = Some out)"
    and "\<forall>r\<in>set rules. set (rule_inputs r) \<subseteq> V" and "S \<subseteq> s"
  shows "\<exists>out. rule_candidates resolve rules m s = Some out"
  using assms(3,4)
proof (induction rules arbitrary: m s)
  case Nil
  then show ?case by simp
next
  case (Cons r rules)
  from Cons.prems have "set (rule_inputs r) \<subseteq> V" by simp
  from resolve_glyphs_total [where resolve = resolve and S = S and V = V, OF R T this Cons.prems(2)]
  obtain xs m1 s1 where
    a: "resolve_glyphs resolve (rule_inputs r) m s = Some (xs, m1, s1)"
    by (metis prod_cases3)
  from resolve_glyphs_frame [where resolve = resolve, OF R a] Cons.prems have "S \<subseteq> s1" by auto
  with Cons.IH [of s1 m1] Cons.prems obtain out where
    "rule_candidates resolve rules m1 s1 = Some out" by auto
  with a show ?case by (cases out) auto
qed

lemma input_from_name_total:
  assumes V: "finite V" "\<forall>r\<in>set (gsub_rules (font self)). set (rule_inputs r) \<subseteq> V"
  shows "name \<in> V \<Longrightarrow> card (V - seen_set seen) < n \<Longrightarrow>
         \<exists>out. input_from_name n self m name seen pad = Some out"
proof (induction n arbitrary: m name seen pad)
  case 0
  then show ?case by simp
next
  case (Suc n)
  let ?res = "\<lambda>m' seen' name'. input_from_name n self m' name' (Some seen') False"
  let ?s1 = "insert name (seen_set seen)"
  show ?case
  proof (cases "m name")
    case (Some p)
    then show ?thesis by (simp add: input_from_name_memo)
  next
    case None
    show ?thesis
    proof (cases "name \<in> seen_set seen")
      case True
      with None show ?thesis by (simp add: input_from_name_seen)
    next
      case False
      have R: "\<forall>m s gl r m' s'. ?res m s gl = Some (r, m', s') \<longrightarrow>
                  s \<subseteq> s' \<and> (\<forall>x\<in>s. m' x = m x) \<and> m \<subseteq>\<^sub>m m'"
      proof (intro allI impI)
        fix m s gl r m' s' assume "?res m s gl = Some (r, m', s')"
        from input_from_name_frame [OF this]
        show "s \<subseteq> s' \<and> (\<forall>x\<in>s. m' x = m x) \<and> m \<subseteq>\<^sub>m m'"
          by (simp add: seen_set_def)
      qed
      have "V - ?s1 \<subset> V - seen_set seen" using False Suc.prems(1) by auto
      then have "card (V - ?s1) < card (V - seen_set seen)"
        using V(1) by (intro psubset_card_mono) auto
      with Suc.prems(2) have c: "card (V - ?s1) < n" by simp
      have T: "\<forall>m s gl. ?s1 \<subseteq> s \<longrightarrow> gl \<in> V \<longrightarrow> (\<exists>out. ?res m s gl = Some out)"
      proof (intro allI impI)
        fix m s gl assume s: "?s1 \<subseteq> s" and gl: "gl \<in> V"
        have "card (V - s) \<le> card (V - ?s1)" using s V(1) by (intro card_mono) auto
        with c have "card (V - seen_set (Some s)) < n" by (simp add: seen_set_def)
        from Suc.IH [OF gl this] show "\<exists>out. ?res m s gl = Some out" .
      qed
      have "\<forall>r\<in>set (filter (\<lambda>r. rule_output r = name) (gsub_rules (font self))).
              set (rule_inputs r) \<subseteq> V" using V(2) by auto
      from rule_candidates_total [where resolve = ?res and S = ?s1 and V = V, OF R T this subset_refl]
      obtain cs m2 s2 where
        "rule_candidates ?res (filter (\<lambda>r. rule_output r = name) (gsub_rules (font self))) m ?s1
           = Some (cs, m2, s2)" by (metis prod_cases3)
      then have "inputs_from_gsub ?res self name m ?s1 = Some (cs, m2, s2)"
        by (simp add: inputs_from_gsub_def)
      then show ?thesis
        unfolding input_from_name_search [where m=m and name=name and seen=seen, OF None False] by simp
    qed
  qed
qed

lemma resolve_glyphs_mono:
  assumes M: "\<forall>m s gl out. resolve m s gl = Some out \<longrightarrow> resolve' m s gl = Some out"
    and "resolve_glyphs resolve gls m s = Some out"
  shows "resolve_glyphs resolve' gls m s = Some out"
  using assms(2)
proof (induction gls arbitrary: m s out)
  case Nil
  then show ?case by simp
next
  case (Cons gl gls)
  from Cons.prems obtain r m1 s1 o1 where
    a: "resolve m s gl = Some (r, m1, s1)" and
    b: "resolve_glyphs resolve gls m1 s1 = Some o1"
    by (auto split: option.splits)
  from M a Cons.IH [OF b] b Cons.prems show ?case by auto
qed

lemma rule_candidates_mono:
  assumes M: "\<forall>m s gl out. resolve m s gl = Some out \<longrightarrow> resolve' m s gl = Some out"
    and "rule_candidates resolve rules m s = Some out"
  shows "rule_candidates resolve' rules m s = Some out"
  using assms(2)
proof (induction rules arbitrary: m s out)
  case Nil
  then show ?case by simp
next
  case (Cons r rules)
  from Cons.prems obtain xs m1 s1 o1 where
    a: "resolve_glyphs resolve (rule_inputs r) m s = Some (xs, m1, s1)" and
    b: "rule_candidates resolve rules m1 s1 = Some o1"
    by (auto split: option.splits)
  from resolve_glyphs_mono [where resolve = resolve and resolve' = resolve', OF M a] Cons.IH [OF b] a b Cons.prems
  show ?case by simp
qed

lemma input_from_name_Suc:
  "input_from_name n self m name seen pad = Some out \<Longrightarrow>
   input_from_name (Suc n) self m name seen pad = Some out"
proof (induction n arbitrary: m name seen pad out)
  case 0
  then show ?case by simp
next
  case (Suc n)
  let ?res = "\<lambda>m' seen' name'. input_from_name n self m' name' (Some seen') False"
  let ?res' = "\<lambda>m' seen' name'. input_from_name (Suc n) self m' name' (Some seen') False"
  let ?s1 = "insert name (seen_set seen)"
  show ?case
  proof (cases "m name")
    case (Some p)
    with Suc.prems show ?thesis by (simp add: input_from_name_memo)
  next
    case None
    show ?thesis
    proof (cases "name \<in> seen_set seen")
      case True
      with None Suc.prems show ?thesis by (simp add: input_from_name_seen)
    next
      case False
      from Suc.prems obtain o1 where
        g: "inputs_from_gsub ?res self name m ?s1 = Some o1"
        unfolding input_from_name_search [where m=m and name=name and seen=seen, OF None False] by (auto split: option.splits)
      have M: "\<forall>m s gl out. ?res m s gl = Some out \<longrightarrow> ?res' m s gl = Some out"
        using Suc.IH by blast
      have "inputs_from_gsub ?res' self name m ?s1 = Some o1"
        using g unfolding inputs_from_gsub_def
        by (rule rule_candidates_mono [where resolve = ?res and resolve' = ?res', OF M])
      with g Suc.prems show ?thesis
        unfolding input_from_name_search [where m=m and name=name and seen=seen, OF None False] by simp
    qed
  qed
qed

lemma input_from_name_fuel_mono:
  assumes "input_from_name n self m name seen pad = Some out" and "n \<le> n'"
  shows "input_from_name n' self m name seen pad = Some out"
  using assms(2,1) by (induction rule: dec_induct) (auto intro: input_from_name_Suc)

lemma input_from_name_terminates:
  assumes "name \<in> set (glyph_names (font self))"
    and "glyph_count (font self) < fuel"
  shows "\<exists>out. input_from_name fuel self m name seen pad = Some out"
proof -
  let ?V = "set (glyph_names (font self))"
  have c: "card ?V = glyph_count (font self)"
    unfolding glyph_count_def glyph_names_def
    by (simp add: length_remdups_card_conv)
  have "card (?V - seen_set seen) \<le> card ?V" by (intro card_mono) auto
  with c assms(2) have b: "card (?V - seen_set seen) < fuel" by simp
  have r: "\<forall>r\<in>set (gsub_rules (font self)). set (rule_inputs r) \<subseteq> ?V"
    by (auto simp: glyph_names_def)
  show ?thesis
    by (rule input_from_name_total [where V = ?V, OF _ r assms(1) b]) simp
qed

subsection \<open>The loop of \<^verbatim>\<open>all_inputs\<close>\<close>

lemma all_inputs_loop_total:
  assumes "glyph_count (font self) < fuel"
  shows "set names \<subseteq> set (glyph_order (font self)) \<Longrightarrow>
         \<exists>out. all_inputs_loop fuel uni self m names = Some out"
proof (induction names arbitrary: m)
  case Nil
  then show ?case by simp
next
  case (Cons name names)
  from Cons.prems have "name \<in> set (glyph_names (font self))"
    by (simp add: glyph_names_def)
  from input_from_name_terminates [OF this assms]
  obtain r m1 s1 where
    a: "input_from_name fuel self m name None (advance_width (font self) name = 0)
          = Some (r, m1, s1)" by (metis prod_cases3)
  from Cons.IH [of m1] Cons.prems obtain gls m2 where
    "all_inputs_loop fuel uni self m1 names = Some (gls, m2)" by auto
  with a show ?case by (simp add: Let_def)
qed

lemma all_inputs_loop_names:
  "all_inputs_loop fuel uni self m names = Some (gs, m') \<Longrightarrow> map glyph_name gs = names"
proof (induction names arbitrary: m gs)
  case Nil
  then show ?case by simp
next
  case (Cons name names)
  from Cons.prems obtain r m1 s1 gls where
    a: "input_from_name fuel self m name None (advance_width (font self) name = 0)
          = Some (r, m1, s1)" and
    b: "all_inputs_loop fuel uni self m1 names = Some (gls, m')" and
    c: "gs = (case r of
                Some (feats, chars) \<Rightarrow>
                  Glyph uni name feats (filter (\<lambda>c. c \<noteq> 32) chars) (font self)
              | None \<Rightarrow> Glyph uni name [''''] [] (font self)) # gls"
    by (auto simp: Let_def split: option.splits)
  from Cons.IH [OF b] c show ?case
    by (auto simp: Glyph_def split: option.splits)
qed

lemma all_inputs_loop_nth:
  "all_inputs_loop fuel uni self m names = Some (gs, m') \<Longrightarrow> i < length names \<Longrightarrow>
   \<exists>gs_i m_i r m2 s2.
     all_inputs_loop fuel uni self m (take i names) = Some (gs_i, m_i) \<and>
     input_from_name fuel self m_i (names ! i) None
       (advance_width (font self) (names ! i) = 0) = Some (r, m2, s2) \<and>
     gs ! i = (case r of
                 Some (feats, chars) \<Rightarrow>
                   Glyph uni (names ! i) feats (filter (\<lambda>c. c \<noteq> 32) chars) (font self)
               | None \<Rightarrow> Glyph uni (names ! i) [''''] [] (font self))"
proof (induction names arbitrary: m gs i)
  case Nil
  then show ?case by simp
next
  case (Cons name names)
  from Cons.prems(1) obtain r m1 s1 gls where
    a: "input_from_name fuel self m name None (advance_width (font self) name = 0)
          = Some (r, m1, s1)" and
    b: "all_inputs_loop fuel uni self m1 names = Some (gls, m')" and
    c: "gs = (case r of
                Some (feats, chars) \<Rightarrow>
                  Glyph uni name feats (filter (\<lambda>c. c \<noteq> 32) chars) (font self)
              | None \<Rightarrow> Glyph uni name [''''] [] (font self)) # gls"
    by (auto simp: Let_def split: option.splits)
  show ?case
  proof (cases i)
    case 0
    with a c show ?thesis by (simp cong: option.case_cong)
  next
    case (Suc j)
    with Cons.prems(2) have "j < length names" by simp
    from Cons.IH [OF b this] obtain gs_j m_j r' m2 s2 where
      d: "all_inputs_loop fuel uni self m1 (take j names) = Some (gs_j, m_j)"
         "input_from_name fuel self m_j (names ! j) None
            (advance_width (font self) (names ! j) = 0) = Some (r', m2, s2)"
         "gls ! j = (case r' of
                 Some (feats, chars) \<Rightarrow>
                   Glyph uni (names ! j) feats (filter (\<lambda>c. c \<noteq> 32) chars) (font self)
               | None \<Rightarrow> Glyph uni (names ! j) [''''] [] (font self))"
      by blast
    from a d(1) have "all_inputs_loop fuel uni self m (take i (name # names)) =
        Some ((case r of
                Some (feats, chars) \<Rightarrow>
                  Glyph uni name feats (filter (\<lambda>c. c \<noteq> 32) chars) (font self)
              | None \<Rightarrow> Glyph uni name [''''] [] (font self)) # gs_j, m_j)"
      using Suc by (simp add: Let_def)
    with d(2,3) c Suc show ?thesis by (simp cong: option.case_cong)
  qed
qed

subsection \<open>Every glyph of the glyph order gets its input\<close>

text \<open>
  Claim C6. For every glyph of the font's declared glyph order, \<^verbatim>\<open>all_inputs\<close> yields
  exactly one \<^verbatim>\<open>Glyph\<close>: with more fuel than the font has glyphs the loop returns,
  and the names of the glyphs it returns are the glyph order itself, entry by entry, so
  no glyph is omitted and none is added.
\<close>

theorem all_inputs_one_glyph_per_name:
  assumes "glyph_count (font self) < fuel"
  shows "\<exists>gs m'. all_inputs fuel uni self m = Some (gs, m') \<and>
                  map glyph_name gs = glyph_order (font self)"
proof -
  from all_inputs_loop_total [OF assms subset_refl]
  obtain gs m' where a: "all_inputs fuel uni self m = Some (gs, m')"
    unfolding all_inputs_def by (metis prod.collapse)
  then have "map glyph_name gs = glyph_order (font self)"
    unfolding all_inputs_def by (rule all_inputs_loop_names)
  with a show ?thesis by blast
qed

theorem all_inputs_one_glyph_per_name_witness:
  "glyph_count (font example_generator) < 6 \<and>
   (\<exists>gs m'. all_inputs 6 example_combining example_generator new_memo = Some (gs, m') \<and>
      map glyph_name gs = [''.notdef'', ''space'', ''A'', ''A.sc'', ''acutecomb''])"
proof -
  have h: "glyph_count (font example_generator) < 6" by code_simp
  have g: "glyph_order (font example_generator) =
      [''.notdef'', ''space'', ''A'', ''A.sc'', ''acutecomb'']"
    by (simp add: example_generator_def InputGenerator_def example_font_def)
  from all_inputs_one_glyph_per_name [OF h, of example_combining new_memo] h g
  show ?thesis by simp
qed

subsection \<open>Termination and the cycle guard\<close>

text \<open>
  Claim C7, amended. Resolution always terminates, also on a font whose substitution
  rules contain a cycle: for a glyph of the font, a call with more fuel than the font has
  glyphs returns, and more fuel does not change what it returns, so the depth of the
  recursion is bounded by the glyph count. A call on a glyph that is in \<^verbatim>\<open>seen\<close> and
  not in the memo returns the unresolvable outcome at once, without a recursive call and
  without a change of the memo or of \<^verbatim>\<open>seen\<close>. (A glyph that is in the memo returns
  its cached pair, whether it is in \<^verbatim>\<open>seen\<close> or not: the memo is looked up first.)
\<close>

theorem resolution_terminates:
  assumes "name \<in> set (glyph_names (font self))"
    and "glyph_count (font self) < fuel"
  shows "(\<exists>out. input_from_name fuel self m name seen pad = Some out \<and>
            (\<forall>fuel'. fuel \<le> fuel' \<longrightarrow>
               input_from_name fuel' self m name seen pad = Some out)) \<and>
         (\<forall>g s n. g \<in> s \<longrightarrow> m g = None \<longrightarrow>
            input_from_name (Suc n) self m g (Some s) pad = Some (None, m, s))"
proof -
  from input_from_name_terminates [OF assms]
  obtain out where a: "input_from_name fuel self m name seen pad = Some out" by blast
  have "\<forall>fuel'. fuel \<le> fuel' \<longrightarrow> input_from_name fuel' self m name seen pad = Some out"
    using input_from_name_fuel_mono [OF a] by blast
  moreover have "\<forall>g s n. g \<in> s \<longrightarrow> m g = None \<longrightarrow>
      input_from_name (Suc n) self m g (Some s) pad = Some (None, m, s)"
    by (simp add: input_from_name_seen seen_set_def)
  ultimately show ?thesis using a by blast
qed

theorem resolution_terminates_witness:
  "''A'' \<in> set (glyph_names (font cyclic_generator)) \<and>
   glyph_count (font cyclic_generator) < 3 \<and>
   map_option fst (input_from_name 3 cyclic_generator new_memo ''A'' None False) = Some None \<and>
   input_from_name 7 cyclic_generator new_memo ''A'' None False =
     input_from_name 3 cyclic_generator new_memo ''A'' None False \<and>
   input_from_name (Suc 0) cyclic_generator new_memo ''A'' (Some {''A'', ''B''}) False =
     Some (None, new_memo, {''A'', ''B''})"
proof -
  have h1: "''A'' \<in> set (glyph_names (font cyclic_generator))" by code_simp
  have h2: "glyph_count (font cyclic_generator) < 3" by code_simp
  have h3: "''A'' \<in> {''A'', ''B''}" by simp
  have h4: "new_memo ''A'' = None" by (simp add: new_memo_def)
  have v: "map_option fst (input_from_name 3 cyclic_generator new_memo ''A'' None False)
             = Some None" by code_simp
  from resolution_terminates [OF h1 h2, of new_memo None False]
  obtain out where
    o: "input_from_name 3 cyclic_generator new_memo ''A'' None False = Some out" and
    mono: "\<forall>fuel'. 3 \<le> fuel' \<longrightarrow>
             input_from_name fuel' cyclic_generator new_memo ''A'' None False = Some out" and
    guard: "\<forall>g s n. g \<in> s \<longrightarrow> new_memo g = None \<longrightarrow>
             input_from_name (Suc n) cyclic_generator new_memo g (Some s) False
               = Some (None, new_memo, s)"
    by blast
  have "(3::nat) \<le> 7" by simp
  with mono have "input_from_name 7 cyclic_generator new_memo ''A'' None False = Some out"
    by blast
  with o have e: "input_from_name 7 cyclic_generator new_memo ''A'' None False =
      input_from_name 3 cyclic_generator new_memo ''A'' None False" by simp
  from guard h3 h4 have "input_from_name (Suc 0) cyclic_generator new_memo ''A''
      (Some {''A'', ''B''}) False = Some (None, new_memo, {''A'', ''B''})" by blast
  with h1 h2 v e show ?thesis by (intro conjI)
qed

text \<open>
  The claim as stated fails where the glyph is in \<^verbatim>\<open>seen\<close> and in the memo: lines
  186-187 return the cached pair before line 194 looks at \<^verbatim>\<open>seen\<close>. In the
  resolution of \<open>A.sc\<close> the call for \<open>A\<close> on behalf of the first rule leaves
  \<open>A\<close> in the memo and in \<^verbatim>\<open>seen\<close>, and in this state the call for \<open>A\<close> on
  behalf of the second rule returns the cached pair, not the unresolvable outcome.
\<close>

theorem cycle_guard_counterexample:
  "input_from_name 2 example_generator new_memo ''A'' (Some {''A.sc''}) False
     = Some (Some ([], [65]), memo_A, {''A'', ''A.sc''}) \<and>
   ''A'' \<in> {''A'', ''A.sc''} \<and>
   input_from_name 1 example_generator memo_A ''A'' (Some {''A'', ''A.sc''}) False
     = Some (Some ([], [65]), memo_A, {''A'', ''A.sc''})"
  by (simp add: numeral_2_eq_2 input_from_name_search input_from_name_memo memo_A_def
      new_memo_def seen_set_def inputs_from_gsub_def unicode_input_def example_generator_def
      InputGenerator_def example_font_def insert_commute)

subsection \<open>The memo\<close>




subsection \<open>The set \<^verbatim>\<open>seen\<close>\<close>

text \<open>
  Claim C5, amended. During one top-level call of \<^verbatim>\<open>input_from_name\<close> the set
  \<^verbatim>\<open>seen\<close> only grows: a name that is in \<^verbatim>\<open>seen\<close> before a call is in it after the
  call, and the name a call is made for is in \<^verbatim>\<open>seen\<close> after the call unless the memo
  answered it. So \<^verbatim>\<open>seen\<close> holds the names of the active path and also the names of
  the branches that have completed (line 206, the removal, is commented out).
\<close>

theorem seen_only_grows:
  assumes "input_from_name fuel self m name seen pad = Some (r, m', seen')"
  shows "seen_set seen \<subseteq> seen' \<and> (m name = None \<longrightarrow> name \<in> seen')"
proof -
  from input_from_name_frame [OF assms] have a: "seen_set seen \<subseteq> seen'" by simp
  have "m name = None \<longrightarrow> name \<in> seen'"
  proof (cases fuel)
    case 0
    with assms show ?thesis by simp
  next
    case (Suc n)
    show ?thesis
    proof (cases "name \<in> seen_set seen")
      case True
      with a show ?thesis by auto
    next
      case False
      show ?thesis
      proof
        assume None: "m name = None"
        note unf = input_from_name_search [where m=m and name=name and seen=seen and n=n
            and self=self and pad=pad, OF None False]
        from assms Suc have
          a': "input_from_name (Suc n) self m name seen pad = Some (r, m', seen')" by simp
        from a' obtain cs m2 s2 where
          g: "inputs_from_gsub
                (\<lambda>m' seen' name'. input_from_name n self m' name' (Some seen') False)
                self name m (insert name (seen_set seen)) = Some (cs, m2, s2)"
          unfolding unf by (auto split: option.splits)
        from a' have "seen' = s2" unfolding unf g by (auto split: if_splits)
        with inputs_from_gsub_frame [OF g] show "name \<in> seen'" by auto
      qed
    qed
  qed
  with a show ?thesis by simp
qed

theorem seen_only_grows_witness:
  "\<exists>r m' seen'.
     input_from_name 3 example_generator new_memo ''A.sc'' (Some {''X''}) False
       = Some (r, m', seen') \<and> {''X''} \<subseteq> seen' \<and> ''A.sc'' \<in> seen'"
proof -
  have "map_option fst (input_from_name 3 example_generator new_memo ''A.sc'' (Some {''X''}) False)
          = Some (Some ([''c2sc''], [65]))" by code_simp
  then obtain r m' seen' where
    a: "input_from_name 3 example_generator new_memo ''A.sc'' (Some {''X''}) False
          = Some (r, m', seen')" by auto
  have n: "new_memo ''A.sc'' = None" by (simp add: new_memo_def)
  from seen_only_grows [OF a] a n show ?thesis by (auto simp: seen_set_def)
qed

text \<open>
  The claim as stated fails: the recursive call that the resolution of \<open>A.sc\<close> makes
  for \<open>A\<close> starts with \<^verbatim>\<open>seen\<close> = \<open>{A.sc}\<close>, and when this branch has completed,
  \<open>A\<close> is still in \<^verbatim>\<open>seen\<close>; so it is after the whole top-level call for \<open>A.sc\<close>.
\<close>

theorem seen_not_restored_counterexample:
  "map_option (snd \<circ> snd)
     (input_from_name 2 example_generator new_memo ''A'' (Some {''A.sc''}) False)
     = Some {''A'', ''A.sc''} \<and>
   map_option (snd \<circ> snd)
     (input_from_name 3 example_generator new_memo ''A.sc'' None False)
     = Some {''A'', ''A.sc''}"
  by code_simp

subsection \<open>Padding\<close>






subsection \<open>Selection of the candidate\<close>




text \<open>
  The order of the rules is another matter than the order of the candidates. With
  \<^verbatim>\<open>_inputs_from_gsub\<close> as modelled from the spec, the memo keeps what a glyph
  resolved to while other glyphs were in \<^verbatim>\<open>seen\<close>, and exchanging the two rules that
  produce \<open>X\<close> changes the input chosen for \<open>X\<close>.
\<close>

lemma rule_order_example:
  "map_option fst
     (input_from_name 5 (fst (InputGenerator (ordered_font False))) new_memo ''X'' None False)
     = Some (Some ([''ss01''], [97])) \<and>
   map_option fst
     (input_from_name 5 (fst (InputGenerator (ordered_font True))) new_memo ''X'' None False)
     = Some (Some ([''aalt'', ''ss02''], [97]))"
  by code_simp

subsection \<open>The glyphs that \<^verbatim>\<open>all_inputs\<close> builds\<close>

text \<open>
  Claim C10. The characters of every \<^verbatim>\<open>Glyph\<close> that \<^verbatim>\<open>all_inputs\<close> returns contain
  no space character: for the glyph at position \<open>i\<close> of the glyph order they are the
  text that the top-level call of \<^verbatim>\<open>input_from_name\<close> resolved for it (on the memo
  the glyphs before it left) with every U+0020 removed, whether the space is padding or
  part of the resolved input itself.
\<close>

theorem all_inputs_removes_spaces:
  assumes "all_inputs fuel uni self m = Some (gs, m')" and "i < length gs"
  shows "32 \<notin> set (characters (gs ! i)) \<and>
         (\<exists>gs_i m_i r m2 s2.
            all_inputs_loop fuel uni self m (take i (glyph_order (font self)))
              = Some (gs_i, m_i) \<and>
            input_from_name fuel self m_i (glyph_order (font self) ! i) None
              (advance_width (font self) (glyph_order (font self) ! i) = 0)
              = Some (r, m2, s2) \<and>
            characters (gs ! i) =
              (case r of None \<Rightarrow> [] | Some (feats, chars) \<Rightarrow> filter (\<lambda>c. c \<noteq> 32) chars))"
proof -
  let ?names = "glyph_order (font self)"
  from assms(1) have l: "all_inputs_loop fuel uni self m ?names = Some (gs, m')"
    by (simp add: all_inputs_def)
  from all_inputs_loop_names [OF l] have "length gs = length ?names"
    by (metis length_map)
  with assms(2) have i: "i < length ?names" by simp
  from all_inputs_loop_nth [OF l i] obtain gs_i m_i r m2 s2 where
    n: "all_inputs_loop fuel uni self m (take i ?names) = Some (gs_i, m_i)"
       "input_from_name fuel self m_i (?names ! i) None
          (advance_width (font self) (?names ! i) = 0) = Some (r, m2, s2)"
       "gs ! i = (case r of
                    Some (feats, chars) \<Rightarrow>
                      Glyph uni (?names ! i) feats (filter (\<lambda>c. c \<noteq> 32) chars) (font self)
                  | None \<Rightarrow> Glyph uni (?names ! i) [''''] [] (font self))"
    by blast
  from n(3) have c: "characters (gs ! i) =
      (case r of None \<Rightarrow> [] | Some (feats, chars) \<Rightarrow> filter (\<lambda>c. c \<noteq> 32) chars)"
    by (simp add: Glyph_def split: option.splits)
  then have "32 \<notin> set (characters (gs ! i))" by (simp split: option.splits)
  with n(1,2) c show ?thesis by blast
qed

theorem all_inputs_removes_spaces_witness:
  "\<exists>gs m'.
     all_inputs 3 example_combining example_generator new_memo = Some (gs, m') \<and>
     1 < length gs \<and> glyph_name (gs ! 1) = ''space'' \<and> characters (gs ! 1) = [] \<and>
     32 \<notin> set (characters (gs ! 1)) \<and>
     map_option fst (input_from_name 3 example_generator new_memo ''space'' None False)
       = Some (Some ([], [32]))"
proof -
  have "map_option (map glyph_name \<circ> fst)
          (all_inputs 3 example_combining example_generator new_memo)
          = Some [''.notdef'', ''space'', ''A'', ''A.sc'', ''acutecomb'']" by code_simp
  then obtain gs m' where
    a: "all_inputs 3 example_combining example_generator new_memo = Some (gs, m')" and
    b: "map glyph_name gs = [''.notdef'', ''space'', ''A'', ''A.sc'', ''acutecomb'']"
    by auto
  have c: "map_option (map characters \<circ> fst)
          (all_inputs 3 example_combining example_generator new_memo)
          = Some [[], [], [65], [65], [769]]" by code_simp
  from b have "length (map glyph_name gs) = 5" by simp
  then have l: "1 < length gs" by simp
  from b have "map glyph_name gs ! 1 = ''space''" by simp
  with l have n: "glyph_name (gs ! 1) = ''space''" by simp
  from a c have "map characters gs = [[], [], [65], [65], [769]]" by simp
  then have "map characters gs ! 1 = []" by simp
  with l have ch: "characters (gs ! 1) = []" by simp
  have v: "map_option fst (input_from_name 3 example_generator new_memo ''space'' None False)
       = Some (Some ([], [32]))" by code_simp
  from all_inputs_removes_spaces [OF a l] a l n ch v show ?thesis by blast
qed

text \<open>
  Claim C3, amended. A glyph for which no input is resolvable still gets a \<^verbatim>\<open>Glyph\<close>
  in the result of \<^verbatim>\<open>all_inputs\<close>, under its own name, with empty text and with the
  feature tuple \<^verbatim>\<open>('',)\<close>, the tuple of one empty tag; and the resolution of the
  remaining glyphs is not aborted: \<^verbatim>\<open>all_inputs\<close> returns a glyph for every name of
  the glyph order.
\<close>

theorem unresolvable_glyph_in_result:
  assumes "glyph_count (font self) < fuel"
    and "i < length (glyph_order (font self))"
    and "all_inputs_loop fuel uni self m (take i (glyph_order (font self))) = Some (gs_i, m_i)"
    and "input_from_name fuel self m_i (glyph_order (font self) ! i) None
           (advance_width (font self) (glyph_order (font self) ! i) = 0) = Some (None, m2, s2)"
  shows "\<exists>gs m'.
           all_inputs fuel uni self m = Some (gs, m') \<and>
           length gs = length (glyph_order (font self)) \<and>
           glyph_name (gs ! i) = glyph_order (font self) ! i \<and>
           characters (gs ! i) = [] \<and>
           features (gs ! i) = ['''']"
proof -
  let ?names = "glyph_order (font self)"
  from all_inputs_loop_total [OF assms(1) subset_refl] obtain gs m' where
    l: "all_inputs_loop fuel uni self m ?names = Some (gs, m')" by (metis prod.collapse)
  from all_inputs_loop_names [OF l] have nm: "map glyph_name gs = ?names" .
  then have len: "length gs = length ?names" by (metis length_map)
  from all_inputs_loop_nth [OF l assms(2)] assms(3,4)
  have "gs ! i = Glyph uni (?names ! i) [''''] [] (font self)" by auto
  then have "characters (gs ! i) = [] \<and> features (gs ! i) = [''''] \<and>
      glyph_name (gs ! i) = ?names ! i" by (simp add: Glyph_def)
  with l len show ?thesis by (simp add: all_inputs_def)
qed

theorem unresolvable_glyph_in_result_witness:
  "glyph_count (font example_generator) < 6 \<and>
   0 < length (glyph_order (font example_generator)) \<and>
   glyph_order (font example_generator) ! 0 = ''.notdef'' \<and>
   map_option fst (input_from_name 6 example_generator new_memo ''.notdef'' None False)
     = Some None \<and>
   (\<exists>gs m'.
      all_inputs 6 example_combining example_generator new_memo = Some (gs, m') \<and>
      length gs = 5 \<and> glyph_name (gs ! 0) = ''.notdef'' \<and>
      characters (gs ! 0) = [] \<and> features (gs ! 0) = [''''])"
proof -
  have h1: "glyph_count (font example_generator) < 6" by code_simp
  have g: "glyph_order (font example_generator) =
      [''.notdef'', ''space'', ''A'', ''A.sc'', ''acutecomb'']"
    by (simp add: example_generator_def InputGenerator_def example_font_def)
  have h2: "0 < length (glyph_order (font example_generator))" by (simp add: g)
  have h3: "all_inputs_loop 6 example_combining example_generator new_memo
      (take 0 (glyph_order (font example_generator))) = Some ([], new_memo)" by simp
  have w: "advance_width (font example_generator) ''.notdef'' \<noteq> 0"
    by (simp add: example_generator_def InputGenerator_def example_font_def)
  have v: "map_option fst (input_from_name 6 example_generator new_memo ''.notdef'' None False)
     = Some None" by code_simp
  then obtain m2 s2 where
    "input_from_name 6 example_generator new_memo ''.notdef'' None False = Some (None, m2, s2)"
    by auto
  with g w have h4: "input_from_name 6 example_generator new_memo
      (glyph_order (font example_generator) ! 0) None
      (advance_width (font example_generator) (glyph_order (font example_generator) ! 0) = 0)
      = Some (None, m2, s2)" by simp
  from unresolvable_glyph_in_result [OF h1 h2 h3 h4] obtain gs m' where
    r: "all_inputs 6 example_combining example_generator new_memo = Some (gs, m')"
       "length gs = length (glyph_order (font example_generator))"
       "glyph_name (gs ! 0) = glyph_order (font example_generator) ! 0"
       "characters (gs ! 0) = []" "features (gs ! 0) = ['''']"
    by blast
  from r(2) have "length gs = 5" by (simp add: g)
  moreover from r(3) have "glyph_name (gs ! 0) = ''.notdef''" by (simp add: g)
  moreover have "glyph_order (font example_generator) ! 0 = ''.notdef''" by (simp add: g)
  ultimately show ?thesis using h1 h2 v r(1,4,5) by blast
qed

text \<open>
  The claim as stated fails in the feature tuple: \<open>.notdef\<close> has no input, and the
  features of its glyph are \<^verbatim>\<open>('',)\<close> (line 166), not the empty tuple.
\<close>

theorem unresolvable_features_counterexample:
  "map_option fst (input_from_name 3 example_generator new_memo ''.notdef'' None False)
     = Some None \<and>
   map_option (map glyph_name \<circ> fst)
     (all_inputs 3 example_combining example_generator new_memo)
     = Some [''.notdef'', ''space'', ''A'', ''A.sc'', ''acutecomb''] \<and>
   map_option (map features \<circ> fst)
     (all_inputs 3 example_combining example_generator new_memo)
     = Some [[''''], [], [], [''c2sc''], []]"
  by code_simp

section \<open>Properties of \<^verbatim>\<open>DFont\<close>\<close>

lemma recalc_tables_keeps:
  "d_ttfont (recalc_tables D self) = d_ttfont self"
  "d_src (recalc_tables D self) = d_src self"
  "d_glyphset (recalc_tables D self) = d_glyphset self"
  "d_axis_locations (recalc_tables D self) = d_axis_locations self"
  "d_axis_order (recalc_tables D self) = d_axis_order self"
  "d_input_map (recalc_tables D self) = d_input_map self"
  by (simp_all add: recalc_tables_def Let_def)

lemma axis_defaults_other:
  "t \<notin> set (map fst xs) \<Longrightarrow> axis_defaults xs m t = m t"
proof (induction xs arbitrary: m)
  case Nil
  then show ?case by simp
next
  case (Cons a xs)
  obtain tag dv where a: "a = (tag, dv)" by (cases a)
  from Cons.prems a have n: "t \<noteq> tag" and "t \<notin> set (map fst xs)" by auto
  then have "axis_defaults xs (m(tag \<mapsto> dv)) t = (m(tag \<mapsto> dv)) t"
    by (intro Cons.IH)
  with a n show ?case by simp
qed

lemma axis_defaults_dom:
  "dom (axis_defaults xs m) = dom m \<union> set (map fst xs)"
proof (induction xs arbitrary: m)
  case Nil
  then show ?case by simp
next
  case (Cons a xs)
  obtain tag dv where a: "a = (tag, dv)" by (cases a)
  have "dom (axis_defaults xs (m(tag \<mapsto> dv))) = dom (m(tag \<mapsto> dv)) \<union> set (map fst xs)"
    by (rule Cons.IH)
  with a show ?case by auto
qed

lemma axis_defaults_lookup:
  "distinct (map fst xs) \<Longrightarrow> (t, d) \<in> set xs \<Longrightarrow> axis_defaults xs m t = Some d"
proof (induction xs arbitrary: m)
  case Nil
  then show ?case by simp
next
  case (Cons a xs)
  obtain tag dv where a: "a = (tag, dv)" by (cases a)
  show ?case
  proof (cases "(t, d) = (tag, dv)")
    case True
    with Cons.prems(1) a show ?thesis by (simp add: axis_defaults_other)
  next
    case False
    with Cons.prems a have "distinct (map fst xs)" and "(t, d) \<in> set xs" by auto
    then have "axis_defaults xs (m(tag \<mapsto> dv)) t = Some d" by (rule Cons.IH)
    with a show ?thesis by simp
  qed
qed

lemma apply_axes_result:
  assumes "apply_axes axes locs out = (locs', out')" and "distinct (map fst axes)"
  shows "dom locs' = dom locs \<and>
         (\<forall>t. t \<in> dom locs \<longrightarrow>
            locs' t = (case map_of axes t of None \<Rightarrow> locs t | Some v \<Rightarrow> Some v)) \<and>
         out' = out @ map (\<lambda>t. ''font has no axis called '' @ t)
                        (filter (\<lambda>t. t \<notin> dom locs) (map fst axes))"
  using assms
proof (induction axes arbitrary: locs out)
  case Nil
  then show ?case by simp
next
  case (Cons a axes)
  obtain axis v where a: "a = (axis, v)" by (cases a)
  from Cons.prems(2) a have d: "distinct (map fst axes)" and n: "map_of axes axis = None"
    by (auto simp: map_of_eq_None_iff)
  show ?case
  proof (cases "locs axis")
    case None
    with Cons.prems(1) a have
      "apply_axes axes locs (out @ [''font has no axis called '' @ axis]) = (locs', out')"
      by simp
    from Cons.IH [OF this d] None a show ?thesis by (auto simp: domIff)
  next
    case (Some w)
    with Cons.prems(1) a have r: "apply_axes axes (locs(axis \<mapsto> v)) out = (locs', out')"
      by simp
    from Some have de: "dom (locs(axis \<mapsto> v)) = dom locs" by auto
    from Cons.IH [OF r d] have
      i: "dom locs' = dom locs"
         "\<forall>t. t \<in> dom locs \<longrightarrow>
            locs' t = (case map_of axes t of None \<Rightarrow> (locs(axis \<mapsto> v)) t | Some v \<Rightarrow> Some v)"
         "out' = out @ map (\<lambda>t. ''font has no axis called '' @ t)
                        (filter (\<lambda>t. t \<notin> dom locs) (map fst axes))"
      unfolding de by blast+
    have "\<forall>t. t \<in> dom locs \<longrightarrow>
            locs' t = (case map_of (a # axes) t of None \<Rightarrow> locs t | Some v \<Rightarrow> Some v)"
    proof (intro allI impI)
      fix t assume "t \<in> dom locs"
      with i(2) have "locs' t =
          (case map_of axes t of None \<Rightarrow> (locs(axis \<mapsto> v)) t | Some v \<Rightarrow> Some v)" by simp
      with n a show "locs' t = (case map_of (a # axes) t of None \<Rightarrow> locs t | Some v \<Rightarrow> Some v)"
        by (cases "t = axis") (auto split: option.splits)
    qed
    moreover from Some have "axis \<in> dom locs" by auto
    then have "filter (\<lambda>t. t \<notin> dom locs) (map fst (a # axes)) =
        filter (\<lambda>t. t \<notin> dom locs) (map fst axes)" using a by simp
    ultimately show ?thesis using i(1,3) by simp
  qed
qed

lemma example_dfont_built:
  "DFont 6 example_combining example_dump example_font (Some ''font.ttf'') False
     = Some example_dfont"
proof -
  have "map_option d_path
          (DFont 6 example_combining example_dump example_font (Some ''font.ttf'') False)
          = Some (Some ''font.ttf'')" by code_simp
  then obtain d :: "(int, string list) dfont" where
    "DFont 6 example_combining example_dump example_font (Some ''font.ttf'') False = Some d"
    by auto
  then show ?thesis by (simp add: example_dfont_def)
qed

subsection \<open>\<^verbatim>\<open>set_variations\<close> with unknown axes\<close>

text \<open>
  Claim C9. On a variable font, \<^verbatim>\<open>set_variations\<close> with a mapping of declared and
  undeclared axis tags succeeds: the font resource becomes the instance that
  \<^verbatim>\<open>instantiateVariableFont\<close> returns for the request, one line
  \<^verbatim>\<open>font has no axis called ...\<close> is printed for each undeclared tag, in the order of
  the request, and nothing else; the pinned coordinate \<^verbatim>\<open>axis_locations\<close> has exactly
  the declared axes as its keys, with the requested value for every declared tag of the
  request and the declared default value for every declared axis the request does not
  mention; \<^verbatim>\<open>axis_order\<close> lists the declared tags. (The axes of the request are the
  items of a dictionary and the declared axes have pairwise different tags.)
\<close>

theorem set_variations_unknown_axes:
  assumes "is_variable self"
    and "distinct (map fst axes)"
    and "distinct (map fst (fvar_axes (d_src self)))"
  shows "\<exists>self' locs.
           set_variations instantiate D axes self =
             (self', map (\<lambda>t. ''font has no axis called '' @ t)
                       (filter (\<lambda>t. t \<notin> set (map fst (fvar_axes (d_src self)))) (map fst axes))) \<and>
           d_ttfont self' = instantiate (d_src self) axes \<and>
           d_axis_order self' = Some (map fst (fvar_axes (d_src self))) \<and>
           d_axis_locations self' = Some locs \<and>
           dom locs = set (map fst (fvar_axes (d_src self))) \<and>
           (\<forall>t v. (t, v) \<in> set axes \<longrightarrow> t \<in> dom locs \<longrightarrow> locs t = Some v) \<and>
           (\<forall>t d. (t, d) \<in> set (fvar_axes (d_src self)) \<longrightarrow> t \<notin> set (map fst axes) \<longrightarrow>
              locs t = Some d)"
proof -
  let ?decl = "fvar_axes (d_src self)"
  let ?defaults = "axis_defaults ?decl Map.empty"
  have dd: "dom ?defaults = set (map fst ?decl)" by (simp add: axis_defaults_dom)
  obtain locs out where ap: "apply_axes axes ?defaults [] = (locs, out)"
    by (cases "apply_axes axes ?defaults []")
  from apply_axes_result [OF ap assms(2)] dd have
    r: "dom locs = set (map fst ?decl)"
       "\<forall>t. t \<in> set (map fst ?decl) \<longrightarrow>
          locs t = (case map_of axes t of None \<Rightarrow> ?defaults t | Some v \<Rightarrow> Some v)"
       "out = map (\<lambda>t. ''font has no axis called '' @ t)
                (filter (\<lambda>t. t \<notin> set (map fst ?decl)) (map fst axes))"
    by auto
  let ?self' = "fst (set_variations instantiate D axes self)"
  from assms(1) ap have
    sv: "set_variations instantiate D axes self =
           (recalc_tables D
              (self\<lparr>d_ttfont := instantiate (d_src self) axes,
                    d_axis_order := Some (map fst ?decl),
                    d_axis_locations := Some locs\<rparr>), out)"
    by (simp add: set_variations_def Let_def)
  have a: "\<forall>t v. (t, v) \<in> set axes \<longrightarrow> t \<in> dom locs \<longrightarrow> locs t = Some v"
  proof (intro allI impI)
    fix t v assume "(t, v) \<in> set axes" and "t \<in> dom locs"
    with assms(2) have "map_of axes t = Some v" by simp
    with r(1,2) \<open>t \<in> dom locs\<close> show "locs t = Some v" by simp
  qed
  have b: "\<forall>t d. (t, d) \<in> set ?decl \<longrightarrow> t \<notin> set (map fst axes) \<longrightarrow> locs t = Some d"
  proof (intro allI impI)
    fix t d assume td: "(t, d) \<in> set ?decl" and "t \<notin> set (map fst axes)"
    then have "map_of axes t = None" by (simp add: map_of_eq_None_iff)
    moreover from assms(3) td have "?defaults t = Some d" by (rule axis_defaults_lookup)
    moreover from td have "t \<in> set (map fst ?decl)" by force
    ultimately show "locs t = Some d" using r(2) by simp
  qed
  from sv r(1,3) a b show ?thesis by (simp add: recalc_tables_keeps)
qed

theorem set_variations_unknown_axes_witness:
  "is_variable example_dfont \<and>
   distinct (map fst [(''wght'', 700::int), (''zzzz'', 1)]) \<and>
   distinct (map fst (fvar_axes (d_src example_dfont))) \<and>
   snd (set_variations example_instantiate example_dump [(''wght'', 700), (''zzzz'', 1)]
          example_dfont) = [''font has no axis called zzzz''] \<and>
   (\<exists>locs.
      d_axis_locations
        (fst (set_variations example_instantiate example_dump [(''wght'', 700), (''zzzz'', 1)]
                example_dfont)) = Some locs \<and>
      dom locs = {''wght'', ''wdth''} \<and> locs ''wght'' = Some 700 \<and> locs ''wdth'' = Some 100)"
proof -
  let ?axes = "[(''wght'', 700::int), (''zzzz'', 1)]"
  have h1: "is_variable example_dfont" by code_simp
  have h2: "distinct (map fst ?axes)" by simp
  have decl: "fvar_axes (d_src example_dfont) = [(''wght'', 400), (''wdth'', 100)]"
    by code_simp
  then have h3: "distinct (map fst (fvar_axes (d_src example_dfont)))" by simp
  from set_variations_unknown_axes [OF h1 h2 h3, of example_instantiate example_dump]
  obtain self' locs where
    r: "set_variations example_instantiate example_dump ?axes example_dfont =
          (self', map (\<lambda>t. ''font has no axis called '' @ t)
                    (filter (\<lambda>t. t \<notin> set (map fst (fvar_axes (d_src example_dfont))))
                       (map fst ?axes)))"
       "d_axis_locations self' = Some locs"
       "dom locs = set (map fst (fvar_axes (d_src example_dfont)))"
       "\<forall>t v. (t, v) \<in> set ?axes \<longrightarrow> t \<in> dom locs \<longrightarrow> locs t = Some v"
       "\<forall>t d. (t, d) \<in> set (fvar_axes (d_src example_dfont)) \<longrightarrow>
          t \<notin> set (map fst ?axes) \<longrightarrow> locs t = Some d"
    by blast
  from r(3) have d: "dom locs = {''wght'', ''wdth''}" by (simp add: decl)
  from r(4) d have a: "locs ''wght'' = Some 700" by simp
  from r(5) have b: "locs ''wdth'' = Some 100" by (simp add: decl)
  from r(1) have o: "snd (set_variations example_instantiate example_dump ?axes example_dfont)
      = [''font has no axis called zzzz'']" by (simp add: decl)
  from r(1) have f: "fst (set_variations example_instantiate example_dump ?axes example_dfont)
      = self'" by simp
  from h1 h2 h3 o r(2) d a b show ?thesis unfolding f by blast
qed

subsection \<open>The glyph set after a change of the font resource\<close>

text \<open>
  Claim C1 does not hold of the code. \<^verbatim>\<open>recalc_tables\<close> assigns the dumped tables and
  leaves \<^verbatim>\<open>self._glyphset\<close> as it is, and so does \<^verbatim>\<open>set_variations\<close>: after any
  call the property \<^verbatim>\<open>glyphset\<close> is the dictionary that \<^verbatim>\<open>__init__\<close> built from the
  font resource it opened. On the example font, pinned at \<open>wght\<close> = 700: the current
  font resource has weight class 700 and no \<open>fvar\<close> table, the glyph \<open>A\<close> of
  the glyph set still carries the resource of weight class 400, and generating the inputs
  from the current resource would give a glyph that carries the resource of weight class
  700.
\<close>

theorem glyphset_not_rebuilt:
  "glyphset (recalc_tables D self) = glyphset self \<and>
   glyphset (fst (set_variations instantiate D axes self)) = glyphset self \<and>
   DFont 6 example_combining example_dump example_font (Some ''font.ttf'') False
     = Some example_dfont \<and>
   is_variable example_dfont \<and>
   us_weight_class (d_ttfont example_dfont) = 400 \<and>
   us_weight_class
     (d_ttfont (fst (set_variations example_instantiate example_dump [(''wght'', 700)]
                       example_dfont))) = 700 \<and>
   map_option (us_weight_class \<circ> glyph_font)
     (glyphset (fst (set_variations example_instantiate example_dump [(''wght'', 700)]
                       example_dfont)) ''A'') = Some 400 \<and>
   map_option (\<lambda>gs. map_option (us_weight_class \<circ> glyph_font) (gs ''A''))
     (gen_inputs 6 example_combining
        (d_ttfont (fst (set_variations example_instantiate example_dump [(''wght'', 700)]
                          example_dfont)))) = Some (Some 700)"
proof -
  have a: "glyphset (recalc_tables D self) = glyphset self"
    by (simp add: glyphset_def recalc_tables_keeps)
  have b: "glyphset (fst (set_variations instantiate D axes self)) = glyphset self"
    by (simp add: glyphset_def set_variations_def Let_def recalc_tables_keeps
        split: prod.splits)
  have c: "is_variable example_dfont" by code_simp
  have d: "us_weight_class (d_ttfont example_dfont) = 400" by code_simp
  have e: "us_weight_class
     (d_ttfont (fst (set_variations example_instantiate example_dump [(''wght'', 700)]
                       example_dfont))) = 700" by code_simp
  have f: "map_option (us_weight_class \<circ> glyph_font)
     (glyphset (fst (set_variations example_instantiate example_dump [(''wght'', 700)]
                       example_dfont)) ''A'') = Some 400" by code_simp
  have g: "map_option (\<lambda>gs. map_option (us_weight_class \<circ> glyph_font) (gs ''A''))
     (gen_inputs 6 example_combining
        (d_ttfont (fst (set_variations example_instantiate example_dump [(''wght'', 700)]
                          example_dfont)))) = Some (Some 700)" by code_simp
  from a b example_dfont_built c d e f g show ?thesis by (intro conjI)
qed

end
